theory Spec2Isabelle
  imports Main "HOL-Library.Multiset"
begin

section \<open>Go runtime primitives used by msgio.go\<close>

text \<open>
  The pools of msgio.go are built from Go channels, a context and goroutines.  Each
  blocking or faulting primitive is modelled as a function on the shared state that
  returns an outcome: the operation cannot proceed in this state (the goroutine stays
  parked where it is), it panics, or it completes with a value and a new state.
\<close>

datatype error = Canceled | DeadlineExceeded | ConnError string

datatype panic = CloseOfClosedChannel | SendOnClosedChannel

datatype wait = OnGate | OnQueue

datatype 'a outcome = Blocks wait | Panics panic | Returns 'a

text \<open>
  A channel \<^verbatim>\<open>make(chan T, n)\<close>: the buffered values in arrival order, the capacity and
  the closed flag.  Nothing in msgio.go sends on an unbuffered channel, so the rendezvous
  of an unbuffered send is not modelled: with capacity 0 a send on an open channel waits.
\<close>

record 'a chan =
  ch_buf :: "'a list"
  ch_cap :: nat
  ch_closed :: bool

definition make_chan :: "nat \<Rightarrow> 'a chan" where
  "make_chan n = \<lparr>ch_buf = [], ch_cap = n, ch_closed = False\<rparr>"

text \<open>\<^verbatim>\<open>close(c)\<close> panics on a channel that is already closed.\<close>

definition chan_close :: "'a chan \<Rightarrow> 'a chan outcome" where
  "chan_close c =
     (if ch_closed c then Panics CloseOfClosedChannel
      else Returns (c\<lparr>ch_closed := True\<rparr>))"

text \<open>\<^verbatim>\<open>c <- x\<close> panics on a closed channel and waits while the buffer is full.\<close>

definition chan_send :: "'a chan \<Rightarrow> 'a \<Rightarrow> 'a chan outcome" where
  "chan_send c x =
     (if ch_closed c then Panics SendOnClosedChannel
      else if length (ch_buf c) < ch_cap c then Returns (c\<lparr>ch_buf := ch_buf c @ [x]\<rparr>)
      else Blocks OnQueue)"

text \<open>
  \<^verbatim>\<open>x, ok := <-c\<close> takes the oldest buffered value; on an empty closed channel it
  returns the zero value with \<^verbatim>\<open>ok = false\<close>; on an empty open channel it waits.
\<close>

definition chan_recv :: "'a \<Rightarrow> 'a chan \<Rightarrow> (('a \<times> bool) \<times> 'a chan) outcome" where
  "chan_recv zero c =
     (case ch_buf c of
        x # xs \<Rightarrow> Returns ((x, True), c\<lparr>ch_buf := xs\<rparr>)
      | [] \<Rightarrow> if ch_closed c then Returns ((zero, False), c) else Blocks OnQueue)"

text \<open>Whether a communication can proceed, as \<^verbatim>\<open>select\<close> tests it.\<close>

definition can_recv :: "'a chan \<Rightarrow> bool" where
  "can_recv c = (0 < length (ch_buf c) \<or> ch_closed c)"

definition can_send :: "'a chan \<Rightarrow> bool" where
  "can_send c = (ch_closed c \<or> length (ch_buf c) < ch_cap c)"

text \<open>
  A \<^verbatim>\<open>select\<close> with two communication cases and no default.  When both can proceed Go
  picks one pseudo-randomly: the pick is the argument \<open>first\<close>.
\<close>

datatype select2 = Case1 | Case2 | NoneReady

definition select2 :: "bool \<Rightarrow> bool \<Rightarrow> bool \<Rightarrow> select2" where
  "select2 first r1 r2 =
     (if r1 \<and> r2 then (if first then Case1 else Case2)
      else if r1 then Case1
      else if r2 then Case2
      else NoneReady)"

text \<open>
  A \<^verbatim>\<open>context.Context\<close> as its observable state: \<^verbatim>\<open>ctx.Err()\<close> is nil while the
  context is live, and \<^verbatim>\<open>ctx.Done()\<close> is closed exactly when it is not.
\<close>

datatype ctx_state = Background | Cancelled | TimedOut

fun ctx_Err :: "ctx_state \<Rightarrow> error option" where
  "ctx_Err Background = None"
| "ctx_Err Cancelled = Some Canceled"
| "ctx_Err TimedOut = Some DeadlineExceeded"

definition ctx_Done :: "ctx_state \<Rightarrow> bool" where
  "ctx_Done ctx = (ctx_Err ctx \<noteq> None)"

section \<open>The readiness gate: \<^verbatim>\<open>semaphore\<close>\<close>

record semaphore =
  ready :: "unit chan"

definition newSemaphore :: semaphore where
  "newSemaphore = \<lparr>ready = make_chan 0\<rparr>"

text \<open>
  \<^verbatim>\<open>enable\<close> is two channel operations: the \<^verbatim>\<open>select\<close> that tries a receive on
  \<^verbatim>\<open>sem.ready\<close> and falls to \<^verbatim>\<open>default\<close> when the receive cannot proceed, and then
  (in the \<^verbatim>\<open>ok\<close> branch and in the \<^verbatim>\<open>default\<close> branch) the \<^verbatim>\<open>close(sem.ready)\<close>.
\<close>

datatype enable_branch = RecvCase bool | DefaultCase

definition enable_select :: "semaphore \<Rightarrow> enable_branch \<times> semaphore" where
  "enable_select sem =
     (case chan_recv () (ready sem) of
        Returns ((_, ok), c') \<Rightarrow> (RecvCase ok, sem\<lparr>ready := c'\<rparr>)
      | Blocks _ \<Rightarrow> (DefaultCase, sem)
      | Panics _ \<Rightarrow> (DefaultCase, sem))"

definition enable_close :: "semaphore \<Rightarrow> semaphore outcome" where
  "enable_close sem =
     (case chan_close (ready sem) of
        Returns c' \<Rightarrow> Returns (sem\<lparr>ready := c'\<rparr>)
      | Panics p \<Rightarrow> Panics p
      | Blocks w \<Rightarrow> Blocks w)"

text \<open>One whole call of \<^verbatim>\<open>enable\<close> with no other goroutine in between.\<close>

definition enable :: "semaphore \<Rightarrow> semaphore outcome" where
  "enable sem =
     (case enable_select sem of
        (RecvCase ok, sem') \<Rightarrow> if ok then enable_close sem' else Returns sem'
      | (DefaultCase, sem') \<Rightarrow> enable_close sem')"

text \<open>\<^verbatim>\<open>lock\<close> is the receive \<^verbatim>\<open><-sem.ready\<close>.\<close>

definition lock :: "semaphore \<Rightarrow> semaphore outcome" where
  "lock sem =
     (case chan_recv () (ready sem) of
        Returns (_, c') \<Rightarrow> Returns (sem\<lparr>ready := c'\<rparr>)
      | Blocks _ \<Rightarrow> Blocks OnGate
      | Panics p \<Rightarrow> Panics p)"

subsection \<open>Goroutines calling \<^verbatim>\<open>enable\<close> on one gate\<close>

text \<open>
  Where each caller stands inside \<^verbatim>\<open>enable\<close>: before the \<^verbatim>\<open>select\<close>, before the
  \<^verbatim>\<open>close\<close> it has decided on, returned, or dead from a panic.
\<close>

datatype enable_pc = AtSelect | AtClose | Finished | Faulted panic

fun enable_step :: "enable_pc \<Rightarrow> semaphore \<Rightarrow> enable_pc \<times> semaphore" where
  "enable_step AtSelect sem =
     (case enable_select sem of
        (RecvCase ok, sem') \<Rightarrow> if ok then (AtClose, sem') else (Finished, sem')
      | (DefaultCase, sem') \<Rightarrow> (AtClose, sem'))"
| "enable_step AtClose sem =
     (case enable_close sem of
        Returns sem' \<Rightarrow> (Finished, sem')
      | Panics p \<Rightarrow> (Faulted p, sem)
      | Blocks _ \<Rightarrow> (AtClose, sem))"
| "enable_step Finished sem = (Finished, sem)"
| "enable_step (Faulted p) sem = (Faulted p, sem)"

text \<open>
  A schedule is the list of goroutine indices in the order in which they take their next
  step.  \<^verbatim>\<open>lbwriter.addConn\<close> calls \<^verbatim>\<open>lw.sem.enable()\<close> with no lock held, so every
  schedule of its callers is possible; \<^verbatim>\<open>qreader.addConn\<close> and \<^verbatim>\<open>mwriter.addConn\<close>
  call it inside their mutex, which allows only the schedules in which the two steps of
  one caller are adjacent.
\<close>

definition sched_step :: "nat \<Rightarrow> enable_pc list \<times> semaphore \<Rightarrow> enable_pc list \<times> semaphore" where
  "sched_step i st =
     (case st of (pcs, sem) \<Rightarrow>
        if i < length pcs
        then (case enable_step (pcs ! i) sem of (pc', sem') \<Rightarrow> (pcs[i := pc'], sem'))
        else (pcs, sem))"

fun run_sched :: "nat list \<Rightarrow> enable_pc list \<times> semaphore \<Rightarrow> enable_pc list \<times> semaphore" where
  "run_sched [] st = st"
| "run_sched (i # is) st = run_sched is (sched_step i st)"

text \<open>
  A history of whole calls on one gate, for the callers that do not interleave inside
  \<^verbatim>\<open>enable\<close>.  A \<^verbatim>\<open>lock\<close> that cannot proceed leaves its caller parked and the gate
  as it is; a panic ends the history.
\<close>

datatype gate_op = Enable | Lock

fun gate_run :: "gate_op list \<Rightarrow> semaphore \<Rightarrow> semaphore outcome" where
  "gate_run [] sem = Returns sem"
| "gate_run (Enable # ops) sem =
     (case enable sem of
        Returns sem' \<Rightarrow> gate_run ops sem'
      | Panics p \<Rightarrow> Panics p
      | Blocks w \<Rightarrow> Blocks w)"
| "gate_run (Lock # ops) sem =
     (case lock sem of
        Returns sem' \<Rightarrow> gate_run ops sem'
      | Panics p \<Rightarrow> Panics p
      | Blocks _ \<Rightarrow> gate_run ops sem)"

section \<open>Messages, connections and adapters\<close>

text \<open>
  Modelled from the spec: the type \<^verbatim>\<open>Msg\<close> is declared outside msgio.go, which uses
  only its field \<^verbatim>\<open>err\<close>.  The spec describes a Message as an ordered sequence of frames
  plus an associated failure indicator.
\<close>

record msg =
  Frames :: "string list"
  err :: "error option"

text \<open>The zero value \<^verbatim>\<open>Msg{}\<close>, as \<^verbatim>\<open>var msg Msg\<close> and a receive on a closed channel give it.\<close>

definition zero_msg :: msg where
  "zero_msg = \<lparr>Frames = [], err = None\<rparr>"

text \<open>
  Modelled from the spec: \<^verbatim>\<open>Conn\<close> is declared outside msgio.go; the spec requires of a
  connection only "read one complete message", "write one complete message" and "close".
  An adapter (\<^verbatim>\<open>*msgReader\<close>, \<^verbatim>\<open>*msgWriter\<close>) is identified by its address, a
  number, as the pools compare adapters by pointer.  What a connection answers is a parameter
  of the model and may depend on everything done on the connections so far, which is logged.
\<close>

datatype event =
  EvRead nat msg
| EvSend nat msg "error option"
| EvClose nat "error option"

record conns =
  conn_read :: "event list \<Rightarrow> nat \<Rightarrow> msg"
  conn_SendMsg :: "event list \<Rightarrow> nat \<Rightarrow> msg \<Rightarrow> error option"
  conn_Close :: "event list \<Rightarrow> nat \<Rightarrow> error option"

fun ev_conn :: "event \<Rightarrow> nat" where
  "ev_conn (EvRead c m) = c"
| "ev_conn (EvSend c m e) = c"
| "ev_conn (EvClose c e) = c"

fun ev_err :: "event \<Rightarrow> error option" where
  "ev_err (EvRead c m) = err m"
| "ev_err (EvSend c m e) = e"
| "ev_err (EvClose c e) = e"

fun is_send :: "msg \<Rightarrow> event \<Rightarrow> bool" where
  "is_send m (EvSend c m' e) = (m' = m)"
| "is_send m (EvRead c m') = False"
| "is_send m (EvClose c e) = False"

fun is_close :: "event \<Rightarrow> bool" where
  "is_close (EvClose c e) = True"
| "is_close (EvRead c m) = False"
| "is_close (EvSend c m e) = False"

text \<open>\<^verbatim>\<open>msgReader.read\<close>: \<^verbatim>\<open>*msg = r.r.read(); return msg.err\<close>.\<close>

definition msgReader_read :: "conns \<Rightarrow> nat \<Rightarrow> event list \<Rightarrow> (error option \<times> msg) \<times> event list" where
  "msgReader_read E r log =
     (let m = conn_read E log r in ((err m, m), log @ [EvRead r m]))"

definition msgReader_Close :: "conns \<Rightarrow> nat \<Rightarrow> event list \<Rightarrow> error option \<times> event list" where
  "msgReader_Close E r log =
     (let e = conn_Close E log r in (e, log @ [EvClose r e]))"

definition msgWriter_Close :: "conns \<Rightarrow> nat \<Rightarrow> event list \<Rightarrow> error option \<times> event list" where
  "msgWriter_Close E w log =
     (let e = conn_Close E log w in (e, log @ [EvClose w e]))"

text \<open>\<^verbatim>\<open>msgWriter.write\<close>: \<^verbatim>\<open>err := w.w.SendMsg(msg); return err\<close>; the context is not looked at.\<close>

definition msgWriter_write :: "conns \<Rightarrow> nat \<Rightarrow> msg \<Rightarrow> event list \<Rightarrow> error option \<times> event list" where
  "msgWriter_write E w m log =
     (let e = conn_SendMsg E log w m in (e, log @ [EvSend w m e]))"

subsection \<open>errgroup\<close>

text \<open>
  Modelled from the spec: package errgroup is not part of msgio.go.  \<^verbatim>\<open>Go\<close> runs each
  function in a goroutine of its own and \<^verbatim>\<open>Wait\<close> blocks until all of them have
  returned, then returns the first non-nil error, if any (the spec: "waits for all to
  complete, and returns the first error encountered").  The goroutines run in an order the
  scheduler chooses: \<open>go_order\<close> takes, for each choice \<open>n\<close> of the schedule, the task
  at position \<open>n mod k\<close> among the \<open>k\<close> tasks still to run, and the source order when
  the schedule is used up.
\<close>

fun go_order :: "nat list \<Rightarrow> 'a list \<Rightarrow> 'a list" where
  "go_order sched [] = []"
| "go_order [] (x # xs) = x # xs"
| "go_order (n # sched) (x # xs) =
     (let i = n mod length (x # xs)
      in ((x # xs) ! i) # go_order sched (take i (x # xs) @ drop (Suc i) (x # xs)))"

fun errgroup_Wait :: "error option list \<Rightarrow> error option" where
  "errgroup_Wait [] = None"
| "errgroup_Wait (None # rs) = errgroup_Wait rs"
| "errgroup_Wait (Some e # rs) = Some e"

text \<open>The slice surgery shared by both \<^verbatim>\<open>rmConn\<close>: the index search and the \<^verbatim>\<open>append\<close>.\<close>

fun find_cur :: "nat list \<Rightarrow> nat \<Rightarrow> nat \<Rightarrow> int" where
  "find_cur [] w i = - 1"
| "find_cur (x # xs) w i = (if x = w then int i else find_cur xs w (Suc i))"

definition cut_at :: "int \<Rightarrow> nat list \<Rightarrow> nat list" where
  "cut_at cur xs = (if cur \<ge> 0 then take (nat cur) xs @ drop (nat cur + 1) xs else xs)"

section \<open>The broadcast pool: \<^verbatim>\<open>mwriter\<close>\<close>

text \<open>
  Every method body of \<^verbatim>\<open>mwriter\<close> runs with \<^verbatim>\<open>mu\<close> held, so each is one step on
  the pool.  \<^verbatim>\<open>write\<close> waits on the gate before it takes the mutex; the gate never
  closes again, so testing it in the state in which the body runs loses nothing.
\<close>

record mwriter =
  mw_ctx :: ctx_state
  mw_ws :: "nat list"
  mw_sem :: semaphore

definition newMWriter :: "ctx_state \<Rightarrow> mwriter" where
  "newMWriter ctx = \<lparr>mw_ctx = ctx, mw_ws = [], mw_sem = newSemaphore\<rparr>"

fun mwriter_Close_loop ::
  "conns \<Rightarrow> nat list \<Rightarrow> error option \<Rightarrow> event list \<Rightarrow> error option \<times> event list" where
  "mwriter_Close_loop E [] er log = (er, log)"
| "mwriter_Close_loop E (ww # ws) er log =
     (case msgWriter_Close E ww log of
        (e, log') \<Rightarrow> mwriter_Close_loop E ws (if e \<noteq> None \<and> er = None then e else er) log')"

definition mwriter_Close :: "conns \<Rightarrow> mwriter \<Rightarrow> event list \<Rightarrow> error option \<times> mwriter \<times> event list" where
  "mwriter_Close E w log =
     (case mwriter_Close_loop E (mw_ws w) None log of
        (er, log') \<Rightarrow> (er, w\<lparr>mw_ws := []\<rparr>, log'))"

definition mwriter_addConn :: "mwriter \<Rightarrow> nat \<Rightarrow> mwriter outcome" where
  "mwriter_addConn mw w =
     (case enable (mw_sem mw) of
        Returns s \<Rightarrow> Returns (mw\<lparr>mw_sem := s, mw_ws := mw_ws mw @ [w]\<rparr>)
      | Panics p \<Rightarrow> Panics p
      | Blocks b \<Rightarrow> Blocks b)"

definition mwriter_rmConn :: "mwriter \<Rightarrow> nat \<Rightarrow> mwriter" where
  "mwriter_rmConn mw w = mw\<lparr>mw_ws := cut_at (find_cur (mw_ws mw) w 0) (mw_ws mw)\<rparr>"

text \<open>The goroutines of the group, each \<^verbatim>\<open>ww.write(ctx, msg)\<close>, in the order they run.\<close>

fun run_writes :: "conns \<Rightarrow> msg \<Rightarrow> nat list \<Rightarrow> event list \<Rightarrow> error option list \<times> event list" where
  "run_writes E m [] log = ([], log)"
| "run_writes E m (ww # ws) log =
     (case msgWriter_write E ww m log of
        (e, log') \<Rightarrow> (case run_writes E m ws log' of (es, log'') \<Rightarrow> (e # es, log'')))"

definition mwriter_write ::
  "conns \<Rightarrow> nat list \<Rightarrow> ctx_state \<Rightarrow> mwriter \<Rightarrow> msg \<Rightarrow> event list
     \<Rightarrow> (error option \<times> mwriter \<times> event list) outcome" where
  "mwriter_write E sched ctx w m log =
     (case lock (mw_sem w) of
        Blocks b \<Rightarrow> Blocks b
      | Panics p \<Rightarrow> Panics p
      | Returns s \<Rightarrow>
          (case run_writes E m (go_order sched (mw_ws w)) log of
             (es, log') \<Rightarrow> Returns (errgroup_Wait es, w\<lparr>mw_sem := s\<rparr>, log')))"

section \<open>The fan-in pool: \<^verbatim>\<open>qreader\<close>\<close>

record qreader =
  q_ctx :: ctx_state
  q_rs :: "nat list"
  q_c :: "msg chan"
  q_sem :: semaphore

definition newQReader :: "ctx_state \<Rightarrow> qreader" where
  "newQReader ctx = \<lparr>q_ctx = ctx, q_rs = [], q_c = make_chan 10, q_sem = newSemaphore\<rparr>"

text \<open>The goroutines of the group in \<^verbatim>\<open>qreader.Close\<close>, each \<^verbatim>\<open>q.rs[i].Close\<close>.\<close>

fun run_closes :: "conns \<Rightarrow> nat list \<Rightarrow> event list \<Rightarrow> error option list \<times> event list" where
  "run_closes E [] log = ([], log)"
| "run_closes E (r # rs) log =
     (case msgReader_Close E r log of
        (e, log') \<Rightarrow> (case run_closes E rs log' of (es, log'') \<Rightarrow> (e # es, log'')))"

definition qreader_Close ::
  "conns \<Rightarrow> nat list \<Rightarrow> qreader \<Rightarrow> event list \<Rightarrow> error option \<times> qreader \<times> event list" where
  "qreader_Close E sched q log =
     (case run_closes E (go_order sched (q_rs q)) log of
        (es, log') \<Rightarrow> (errgroup_Wait es, q\<lparr>q_rs := []\<rparr>, log'))"

text \<open>
  \<^verbatim>\<open>addConn\<close> starts the worker \<^verbatim>\<open>go q.listen(q.ctx, r)\<close>, which begins at
  \<open>L_Read\<close> below, and then, with the mutex held, opens the gate and appends the adapter.
\<close>

definition qreader_addConn :: "qreader \<Rightarrow> nat \<Rightarrow> qreader outcome" where
  "qreader_addConn q r =
     (case enable (q_sem q) of
        Returns s \<Rightarrow> Returns (q\<lparr>q_sem := s, q_rs := q_rs q @ [r]\<rparr>)
      | Panics p \<Rightarrow> Panics p
      | Blocks b \<Rightarrow> Blocks b)"

definition qreader_rmConn :: "qreader \<Rightarrow> nat \<Rightarrow> qreader" where
  "qreader_rmConn q r = q\<lparr>q_rs := cut_at (find_cur (q_rs q) r 0) (q_rs q)\<rparr>"

text \<open>
  \<^verbatim>\<open>read(ctx, msg)\<close>: the argument \<open>m\<close> is what the caller's \<^verbatim>\<open>*msg\<close> holds on entry;
  the result carries what it holds on return.  The \<^verbatim>\<open>ctx.Done()\<close> case has an empty
  body, and the function ends with \<^verbatim>\<open>return msg.err\<close> in both cases.
\<close>

definition qreader_read ::
  "bool \<Rightarrow> ctx_state \<Rightarrow> qreader \<Rightarrow> msg \<Rightarrow> (error option \<times> msg \<times> qreader) outcome" where
  "qreader_read first ctx q m =
     (case lock (q_sem q) of
        Blocks b \<Rightarrow> Blocks b
      | Panics p \<Rightarrow> Panics p
      | Returns s \<Rightarrow>
          (case select2 first (ctx_Done ctx) (can_recv (q_c q)) of
             NoneReady \<Rightarrow> Blocks OnQueue
           | Case1 \<Rightarrow> Returns (err m, m, q\<lparr>q_sem := s\<rparr>)
           | Case2 \<Rightarrow>
               (case chan_recv zero_msg (q_c q) of
                  Returns ((m', ok), c') \<Rightarrow> Returns (err m', m', q\<lparr>q_sem := s, q_c := c'\<rparr>)
                | Blocks b \<Rightarrow> Blocks b
                | Panics p \<Rightarrow> Panics p)))"

text \<open>
  The worker \<^verbatim>\<open>listen\<close>, one blocking operation per step.  The deferred calls run in
  reverse order of their \<^verbatim>\<open>defer\<close>: first \<^verbatim>\<open>r.Close()\<close>, then \<^verbatim>\<open>q.rmConn(r)\<close>.
\<close>

datatype listen_pc =
  L_Read
| L_Select "error option" msg
| L_Send "error option" msg
| L_Close
| L_RmConn
| L_Done

fun qreader_listen_step ::
  "conns \<Rightarrow> nat \<Rightarrow> listen_pc \<Rightarrow> qreader \<times> event list \<Rightarrow> (listen_pc \<times> qreader \<times> event list) outcome" where
  "qreader_listen_step E r L_Read (q, log) =
     (case msgReader_read E r log of
        ((er, m), log') \<Rightarrow> Returns (L_Select er m, q, log'))"
| "qreader_listen_step E r (L_Select er m) (q, log) =
     (if ctx_Done (q_ctx q) then Returns (L_Close, q, log)
      else Returns (L_Send er m, q, log))"
| "qreader_listen_step E r (L_Send er m) (q, log) =
     (case chan_send (q_c q) m of
        Returns c' \<Rightarrow> Returns (if er \<noteq> None then L_Close else L_Read, q\<lparr>q_c := c'\<rparr>, log)
      | Blocks b \<Rightarrow> Blocks b
      | Panics p \<Rightarrow> Panics p)"
| "qreader_listen_step E r L_Close (q, log) =
     (case msgReader_Close E r log of
        (e, log') \<Rightarrow> Returns (L_RmConn, q, log'))"
| "qreader_listen_step E r L_RmConn (q, log) = Returns (L_Done, qreader_rmConn q r, log)"
| "qreader_listen_step E r L_Done (q, log) = Returns (L_Done, q, log)"

text \<open>The worker taking \<open>n\<close> steps in a row; it stops where a step cannot proceed.\<close>

fun qreader_listen_run ::
  "conns \<Rightarrow> nat \<Rightarrow> nat \<Rightarrow> listen_pc \<Rightarrow> qreader \<times> event list \<Rightarrow> (listen_pc \<times> qreader \<times> event list) outcome" where
  "qreader_listen_run E r 0 pc st = Returns (pc, st)"
| "qreader_listen_run E r (Suc n) pc st =
     (case qreader_listen_step E r pc st of
        Returns (pc', st') \<Rightarrow> qreader_listen_run E r n pc' st'
      | Blocks b \<Rightarrow> Blocks b
      | Panics p \<Rightarrow> Panics p)"

section \<open>The load-balanced pool: \<^verbatim>\<open>lbwriter\<close>\<close>

record lbwriter =
  lw_ctx :: ctx_state
  lw_c :: "msg chan"
  lw_sem :: semaphore

definition newLBWriter :: "ctx_state \<Rightarrow> lbwriter" where
  "newLBWriter ctx = \<lparr>lw_ctx = ctx, lw_c = make_chan 10, lw_sem = newSemaphore\<rparr>"

definition lbwriter_Close :: "lbwriter \<Rightarrow> (error option \<times> lbwriter) outcome" where
  "lbwriter_Close lw =
     (case chan_close (lw_c lw) of
        Returns c' \<Rightarrow> Returns (None, lw\<lparr>lw_c := c'\<rparr>)
      | Panics p \<Rightarrow> Panics p
      | Blocks b \<Rightarrow> Blocks b)"

text \<open>
  \<^verbatim>\<open>addConn\<close> opens the gate and starts the worker \<^verbatim>\<open>go lw.listen(lw.ctx, w)\<close>, which
  begins at \<open>W_Select\<close> below.  This is the call as a whole; \<open>run_sched\<close> above gives
  the interleavings of its \<^verbatim>\<open>enable\<close> with that of another caller.
\<close>

definition lbwriter_addConn :: "lbwriter \<Rightarrow> nat \<Rightarrow> lbwriter outcome" where
  "lbwriter_addConn lw w =
     (case enable (lw_sem lw) of
        Returns s \<Rightarrow> Returns (lw\<lparr>lw_sem := s\<rparr>)
      | Panics p \<Rightarrow> Panics p
      | Blocks b \<Rightarrow> Blocks b)"

definition lbwriter_rmConn :: "lbwriter \<Rightarrow> nat \<Rightarrow> lbwriter" where
  "lbwriter_rmConn lw w = lw"

definition lbwriter_write ::
  "bool \<Rightarrow> ctx_state \<Rightarrow> lbwriter \<Rightarrow> msg \<Rightarrow> (error option \<times> lbwriter) outcome" where
  "lbwriter_write first ctx lw m =
     (case lock (lw_sem lw) of
        Blocks b \<Rightarrow> Blocks b
      | Panics p \<Rightarrow> Panics p
      | Returns s \<Rightarrow>
          (case select2 first (ctx_Done ctx) (can_send (lw_c lw)) of
             NoneReady \<Rightarrow> Blocks OnQueue
           | Case1 \<Rightarrow> Returns (ctx_Err ctx, lw\<lparr>lw_sem := s\<rparr>)
           | Case2 \<Rightarrow>
               (case chan_send (lw_c lw) m of
                  Returns c' \<Rightarrow> Returns (None, lw\<lparr>lw_sem := s, lw_c := c'\<rparr>)
                | Blocks b \<Rightarrow> Blocks b
                | Panics p \<Rightarrow> Panics p)))"

text \<open>
  The worker \<^verbatim>\<open>listen\<close>, one blocking operation per step: the \<^verbatim>\<open>select\<close>, the write
  on the connection, the send that puts a failed message back, and the deferred calls.
  The \<^verbatim>\<open>break\<close> after the send leaves the \<^verbatim>\<open>select\<close>, not the loop.
\<close>

datatype lb_pc =
  W_Select
| W_Write msg
| W_Requeue msg
| W_Close
| W_RmConn
| W_Done

fun lbwriter_listen_step ::
  "conns \<Rightarrow> bool \<Rightarrow> nat \<Rightarrow> lb_pc \<Rightarrow> lbwriter \<times> event list \<Rightarrow> (lb_pc \<times> lbwriter \<times> event list) outcome" where
  "lbwriter_listen_step E first w W_Select (lw, log) =
     (case select2 first (ctx_Done (lw_ctx lw)) (can_recv (lw_c lw)) of
        NoneReady \<Rightarrow> Blocks OnQueue
      | Case1 \<Rightarrow> Returns (W_Close, lw, log)
      | Case2 \<Rightarrow>
          (case chan_recv zero_msg (lw_c lw) of
             Returns ((m, ok), c') \<Rightarrow>
               if \<not> ok then Returns (W_Close, lw\<lparr>lw_c := c'\<rparr>, log)
               else Returns (W_Write m, lw\<lparr>lw_c := c'\<rparr>, log)
           | Blocks b \<Rightarrow> Blocks b
           | Panics p \<Rightarrow> Panics p))"
| "lbwriter_listen_step E first w (W_Write m) (lw, log) =
     (case msgWriter_write E w m log of
        (er, log') \<Rightarrow> Returns (if er \<noteq> None then W_Requeue m else W_Select, lw, log'))"
| "lbwriter_listen_step E first w (W_Requeue m) (lw, log) =
     (case chan_send (lw_c lw) m of
        Returns c' \<Rightarrow> Returns (W_Select, lw\<lparr>lw_c := c'\<rparr>, log)
      | Blocks b \<Rightarrow> Blocks b
      | Panics p \<Rightarrow> Panics p)"
| "lbwriter_listen_step E first w W_Close (lw, log) =
     (case msgWriter_Close E w log of
        (e, log') \<Rightarrow> Returns (W_RmConn, lw, log'))"
| "lbwriter_listen_step E first w W_RmConn (lw, log) = Returns (W_Done, lbwriter_rmConn lw w, log)"
| "lbwriter_listen_step E first w W_Done (lw, log) = Returns (W_Done, lw, log)"

text \<open>The worker taking one step per listed pick; it stops where a step cannot proceed.\<close>

fun lbwriter_listen_run ::
  "conns \<Rightarrow> bool list \<Rightarrow> nat \<Rightarrow> lb_pc \<Rightarrow> lbwriter \<times> event list \<Rightarrow> (lb_pc \<times> lbwriter \<times> event list) outcome" where
  "lbwriter_listen_run E [] w pc st = Returns (pc, st)"
| "lbwriter_listen_run E (first # picks) w pc st =
     (case lbwriter_listen_step E first w pc st of
        Returns (pc', st') \<Rightarrow> lbwriter_listen_run E picks w pc' st'
      | Blocks b \<Rightarrow> Blocks b
      | Panics p \<Rightarrow> Panics p)"

section \<open>Histories of a fan-in pool\<close>

text \<open>
  What can happen to one \<^verbatim>\<open>qreader\<close>, in any order: the calls of its interface, the
  cancellation of its context, and a step of a worker.  A worker step is taken from any
  position of \<^verbatim>\<open>listen\<close>, which covers the positions the workers are really at.  An
  operation that cannot proceed leaves its goroutine parked and the pool as it is.
\<close>

datatype q_op =
  Q_addConn nat
| Q_rmConn nat
| Q_Close "nat list"
| Q_read bool ctx_state msg
| Q_listen nat listen_pc
| Q_cancel

fun qreader_do :: "conns \<Rightarrow> q_op \<Rightarrow> qreader \<times> event list \<Rightarrow> (qreader \<times> event list) outcome" where
  "qreader_do E (Q_addConn r) (q, log) =
     (case qreader_addConn q r of
        Returns q' \<Rightarrow> Returns (q', log)
      | Panics p \<Rightarrow> Panics p
      | Blocks b \<Rightarrow> Blocks b)"
| "qreader_do E (Q_rmConn r) (q, log) = Returns (qreader_rmConn q r, log)"
| "qreader_do E (Q_Close sched) (q, log) =
     (case qreader_Close E sched q log of (e, q', log') \<Rightarrow> Returns (q', log'))"
| "qreader_do E (Q_read first ctx m) (q, log) =
     (case qreader_read first ctx q m of
        Returns (e, m', q') \<Rightarrow> Returns (q', log)
      | Panics p \<Rightarrow> Panics p
      | Blocks b \<Rightarrow> Blocks b)"
| "qreader_do E (Q_listen r pc) (q, log) =
     (case qreader_listen_step E r pc (q, log) of
        Returns (pc', st') \<Rightarrow> Returns st'
      | Panics p \<Rightarrow> Panics p
      | Blocks b \<Rightarrow> Blocks b)"
| "qreader_do E Q_cancel (q, log) = Returns (q\<lparr>q_ctx := Cancelled\<rparr>, log)"

fun qreader_history ::
  "conns \<Rightarrow> q_op list \<Rightarrow> qreader \<times> event list \<Rightarrow> (qreader \<times> event list) outcome" where
  "qreader_history E [] st = Returns st"
| "qreader_history E (a # ops) st =
     (case qreader_do E a st of
        Returns st' \<Rightarrow> qreader_history E ops st'
      | Panics p \<Rightarrow> Panics p
      | Blocks b \<Rightarrow> qreader_history E ops st)"

fun is_addConn :: "q_op \<Rightarrow> bool" where
  "is_addConn (Q_addConn r) = True"
| "is_addConn (Q_rmConn r) = False"
| "is_addConn (Q_Close sched) = False"
| "is_addConn (Q_read first ctx m) = False"
| "is_addConn (Q_listen r pc) = False"
| "is_addConn Q_cancel = False"

section \<open>Where the messages of a load-balanced pool are\<close>

text \<open>
  The message a worker holds between taking it from the queue and either delivering it or
  putting it back, and the messages the connections have accepted.
\<close>

fun held :: "lb_pc \<Rightarrow> msg multiset" where
  "held (W_Write m) = {#m#}"
| "held (W_Requeue m) = {#m#}"
| "held W_Select = {#}"
| "held W_Close = {#}"
| "held W_RmConn = {#}"
| "held W_Done = {#}"

fun delivered :: "event list \<Rightarrow> msg multiset" where
  "delivered [] = {#}"
| "delivered (EvSend c m None # evs) = add_mset m (delivered evs)"
| "delivered (EvSend c m (Some e) # evs) = delivered evs"
| "delivered (EvRead c m # evs) = delivered evs"
| "delivered (EvClose c e # evs) = delivered evs"

section \<open>The words of the specification about a run of closes or writes\<close>

text \<open>
  Of the attempts logged by one call: how many failed, and the error of the first that
  failed ("returns the first error encountered (if any)").
\<close>

definition failures :: "event list \<Rightarrow> nat" where
  "failures evs = length (filter (\<lambda>ev. ev_err ev \<noteq> None) evs)"

definition first_failure :: "event list \<Rightarrow> error option" where
  "first_failure evs =
     (case filter (\<lambda>ev. ev_err ev \<noteq> None) evs of [] \<Rightarrow> None | ev # _ \<Rightarrow> ev_err ev)"

text \<open>
  What no operation of a \<^verbatim>\<open>qreader\<close> changes: nothing is ever sent on the gate's
  channel, and the queue \<^verbatim>\<open>q.c\<close> is never closed.
\<close>

definition qreader_ok :: "qreader \<Rightarrow> bool" where
  "qreader_ok q = (ch_buf (ready (q_sem q)) = [] \<and> \<not> ch_closed (q_c q))"

section \<open>Sample connections and pools\<close>

definition hello :: msg where
  "hello = \<lparr>Frames = [''hello''], err = None\<rparr>"

text \<open>Connection 2 fails every write; closing 2 and closing 3 fail; every read fails.\<close>

definition flaky :: conns where
  "flaky =
     \<lparr>conn_read = (\<lambda>log c. \<lparr>Frames = [], err = Some (ConnError ''EOF'')\<rparr>),
      conn_SendMsg = (\<lambda>log c m. if c = 2 then Some (ConnError ''broken pipe'') else None),
      conn_Close = (\<lambda>log c. if c = 2 then Some (ConnError ''close 2'')
                             else if c = 3 then Some (ConnError ''close 3'') else None)\<rparr>"

text \<open>A gate that has been opened, and the pools right after their first \<^verbatim>\<open>addConn\<close>.\<close>

definition open_gate :: semaphore where
  "open_gate = \<lparr>ready = \<lparr>ch_buf = [], ch_cap = 0, ch_closed = True\<rparr>\<rparr>"

definition lw_ready :: lbwriter where
  "lw_ready = \<lparr>lw_ctx = Background, lw_c = make_chan 10, lw_sem = open_gate\<rparr>"

definition q_ready :: qreader where
  "q_ready = \<lparr>q_ctx = Background, q_rs = [1], q_c = make_chan 10, q_sem = open_gate\<rparr>"

definition mw_ready :: mwriter where
  "mw_ready = \<lparr>mw_ctx = Background, mw_ws = [1, 2, 3], mw_sem = open_gate\<rparr>"

text \<open>A load-balanced pool closed before its gate was opened, and one closed with a message queued.\<close>

definition lw_shut :: lbwriter where
  "lw_shut =
     \<lparr>lw_ctx = Background, lw_c = \<lparr>ch_buf = [], ch_cap = 10, ch_closed = True\<rparr>,
      lw_sem = newSemaphore\<rparr>"

definition lw_queued :: lbwriter where
  "lw_queued =
     \<lparr>lw_ctx = Background, lw_c = \<lparr>ch_buf = [hello], ch_cap = 10, ch_closed = False\<rparr>,
      lw_sem = open_gate\<rparr>"

definition lw_closing :: lbwriter where
  "lw_closing =
     \<lparr>lw_ctx = Background, lw_c = \<lparr>ch_buf = [hello], ch_cap = 10, ch_closed = True\<rparr>,
      lw_sem = open_gate\<rparr>"

definition lw_drained :: lbwriter where
  "lw_drained =
     \<lparr>lw_ctx = Background, lw_c = \<lparr>ch_buf = [], ch_cap = 10, ch_closed = True\<rparr>,
      lw_sem = open_gate\<rparr>"

text \<open>A load-balanced pool whose queue is full.\<close>

definition lw_full :: lbwriter where
  "lw_full =
     \<lparr>lw_ctx = Background,
      lw_c = \<lparr>ch_buf = replicate 10 hello, ch_cap = 10, ch_closed = False\<rparr>,
      lw_sem = open_gate\<rparr>"

text \<open>The broadcast pool after \<^verbatim>\<open>addConn\<close> and \<^verbatim>\<open>rmConn\<close> of its only adapter.\<close>

definition mw_emptied :: mwriter where
  "mw_emptied = \<lparr>mw_ctx = Background, mw_ws = [], mw_sem = open_gate\<rparr>"

text \<open>What a read on a connection of \<open>flaky\<close> gives, and a fan-in pool whose context is cancelled.\<close>

definition eof :: msg where
  "eof = \<lparr>Frames = [], err = Some (ConnError ''EOF'')\<rparr>"

definition q_cancelled :: qreader where
  "q_cancelled = \<lparr>q_ctx = Cancelled, q_rs = [1], q_c = make_chan 10, q_sem = open_gate\<rparr>"

text \<open>
  A new fan-in pool whose first worker has already ended, with its failed message queued,
  and the same pool once \<^verbatim>\<open>addConn\<close> has appended the adapter of that worker.
\<close>

definition q_unregistered :: qreader where
  "q_unregistered =
     \<lparr>q_ctx = Background, q_rs = [],
      q_c = \<lparr>ch_buf = [eof], ch_cap = 10, ch_closed = False\<rparr>, q_sem = newSemaphore\<rparr>"

definition q_orphan :: qreader where
  "q_orphan =
     \<lparr>q_ctx = Background, q_rs = [1],
      q_c = \<lparr>ch_buf = [eof], ch_cap = 10, ch_closed = False\<rparr>, q_sem = open_gate\<rparr>"

section \<open>Facts about the primitives\<close>

lemmas chan_defs =
  chan_recv_def chan_close_def chan_send_def make_chan_def can_recv_def can_send_def

lemmas sem_defs = enable_def enable_select_def enable_close_def lock_def newSemaphore_def

text \<open>
  On a gate whose channel holds nothing, which is every gate of the pools, a whole
  \<^verbatim>\<open>enable\<close> closes the channel if it is open and changes nothing if it is closed, and
  \<^verbatim>\<open>lock\<close> returns exactly when the channel is closed.
\<close>

lemma enable_whole_call:
  "ch_buf (ready s) = [] \<Longrightarrow> enable s = Returns (s\<lparr>ready := (ready s)\<lparr>ch_closed := True\<rparr>\<rparr>)"
  by (auto simp add: chan_defs sem_defs)

lemma lock_whole_call:
  "ch_buf (ready s) = [] \<Longrightarrow> lock s = (if ch_closed (ready s) then Returns s else Blocks OnGate)"
  by (auto simp add: chan_defs sem_defs)

lemma gate_run_closed_iff:
  "ch_buf (ready s) = [] \<Longrightarrow>
   \<exists>s'. gate_run ops s = Returns s' \<and> ch_buf (ready s') = [] \<and>
        ch_closed (ready s') = (ch_closed (ready s) \<or> Enable \<in> set ops)"
proof (induction ops arbitrary: s)
  case Nil
  then show ?case by simp
next
  case (Cons a ops)
  show ?case
  proof (cases a)
    case Enable
    let ?s1 = "s\<lparr>ready := (ready s)\<lparr>ch_closed := True\<rparr>\<rparr>"
    have "ch_buf (ready ?s1) = []" using Cons.prems by simp
    from Cons.IH[OF this] Cons.prems Enable show ?thesis by (simp add: enable_whole_call)
  next
    case Lock
    from Cons.IH[OF Cons.prems] Cons.prems Lock show ?thesis by (auto simp add: lock_whole_call)
  qed
qed

text \<open>The order in which the goroutines of a group run is a rearrangement of the tasks.\<close>

lemma go_order_mset: "mset (go_order sched xs) = mset xs"
proof (induction sched xs rule: go_order.induct)
  case (3 n sched x xs)
  let ?ys = "x # xs"
  let ?i = "n mod length ?ys"
  have i: "?i < length ?ys" by simp
  have "mset ?ys = mset (take ?i ?ys @ ?ys ! ?i # drop (Suc ?i) ?ys)"
    using id_take_nth_drop[OF i] by simp
  then have "mset ?ys = add_mset (?ys ! ?i) (mset (take ?i ?ys @ drop (Suc ?i) ?ys))"
    by simp
  with 3 show ?case by (simp add: Let_def)
qed simp_all

text \<open>Every rearrangement of the tasks is the order of some schedule.\<close>

lemma go_order_any:
  "mset ys = mset xs \<Longrightarrow> \<exists>sched. go_order sched xs = ys"
proof (induction ys arbitrary: xs)
  case Nil
  then have "xs = []" by simp
  then show ?case by (intro exI[of _ "[]"]) simp
next
  case (Cons y ys)
  have "y \<in> set xs" using Cons.prems by (metis list.set_intros(1) set_mset_mset)
  then obtain i where i: "i < length xs" "xs ! i = y" by (auto simp add: in_set_conv_nth)
  let ?rest = "take i xs @ drop (Suc i) xs"
  have "mset xs = add_mset y (mset ?rest)"
    using id_take_nth_drop[OF i(1)] i(2)
    by (metis mset.simps(2) mset_append union_mset_add_mset_right)
  with Cons.prems have "mset ys = mset ?rest" by simp
  from Cons.IH[OF this] obtain sched where sched: "go_order sched ?rest = ys" ..
  obtain x xs' where xs: "xs = x # xs'" using i(1) by (cases xs) auto
  have "go_order (i # sched) xs = y # ys"
    using i sched unfolding xs by (simp add: Let_def)
  then show ?case ..
qed

lemma errgroup_Wait_first: "errgroup_Wait (map ev_err evs) = first_failure evs"
proof (induction evs)
  case Nil
  show ?case by (simp add: first_failure_def)
next
  case (Cons ev evs)
  then show ?case by (cases "ev_err ev") (simp_all add: first_failure_def)
qed

lemma first_failure_iff: "(first_failure evs \<noteq> None) = (0 < failures evs)"
proof (induction evs)
  case Nil
  show ?case by (simp add: first_failure_def failures_def)
next
  case (Cons ev evs)
  then show ?case by (cases "ev_err ev") (simp_all add: first_failure_def failures_def)
qed

text \<open>The index search and the \<^verbatim>\<open>append\<close> of \<^verbatim>\<open>rmConn\<close> remove the first occurrence.\<close>

lemma find_cur_range: "find_cur xs w i = - 1 \<or> int i \<le> find_cur xs w i"
  by (induction xs arbitrary: i) force+

lemma cut_at_find_cur: "cut_at (find_cur xs w i - int i) xs = remove1 w xs"
proof (induction xs arbitrary: i)
  case Nil
  show ?case by (simp add: cut_at_def)
next
  case (Cons x xs)
  show ?case
  proof (cases "x = w")
    case True
    then show ?thesis by (simp add: cut_at_def)
  next
    case False
    have ih: "cut_at (find_cur xs w (Suc i) - int (Suc i)) xs = remove1 w xs" by (rule Cons)
    from find_cur_range[of xs w "Suc i"] show ?thesis
    proof
      assume absent: "find_cur xs w (Suc i) = - 1"
      with ih have "remove1 w xs = xs" by (simp add: cut_at_def)
      with absent False show ?thesis by (simp add: cut_at_def)
    next
      assume found: "int (Suc i) \<le> find_cur xs w (Suc i)"
      define k where "k = nat (find_cur xs w (Suc i) - int (Suc i))"
      have fk: "find_cur xs w (Suc i) = int k + int i + 1" using found by (simp add: k_def)
      from ih have "take k xs @ drop (k + 1) xs = remove1 w xs"
        by (simp add: cut_at_def fk)
      with False show ?thesis by (simp add: cut_at_def fk nat_add_distrib)
    qed
  qed
qed

lemma rmConn_remove1: "cut_at (find_cur xs w 0) xs = remove1 w xs"
  using cut_at_find_cur[of xs w 0] by simp

section \<open>The broadcast pool\<close>

lemma run_writes_events:
  "\<exists>evs. run_writes E m ws log = (map ev_err evs, log @ evs) \<and> map ev_conn evs = ws
      \<and> list_all (is_send m) evs"
proof (induction ws arbitrary: log)
  case Nil
  show ?case by simp
next
  case (Cons w ws)
  let ?ev = "EvSend w m (conn_SendMsg E log w m)"
  from Cons[of "log @ [?ev]"] obtain evs where
    evs: "run_writes E m ws (log @ [?ev]) = (map ev_err evs, (log @ [?ev]) @ evs)"
      "map ev_conn evs = ws" "list_all (is_send m) evs" by blast
  have a: "run_writes E m (w # ws) log = (map ev_err (?ev # evs), log @ (?ev # evs))"
    using evs(1) by (simp add: msgWriter_write_def Let_def)
  have b: "map ev_conn (?ev # evs) = w # ws" using evs(2) by simp
  have c: "list_all (is_send m) (?ev # evs)" using evs(3) by simp
  show ?case by (intro exI[of _ "?ev # evs"] conjI a b c)
qed

lemma mwriter_Close_loop_events:
  "\<exists>evs. mwriter_Close_loop E ws er log =
           ((if er \<noteq> None then er else first_failure evs), log @ evs)
      \<and> map ev_conn evs = ws \<and> list_all is_close evs"
proof (induction ws arbitrary: er log)
  case Nil
  show ?case by (simp add: first_failure_def)
next
  case (Cons w ws)
  let ?e = "conn_Close E log w"
  let ?ev = "EvClose w ?e"
  let ?er = "if ?e \<noteq> None \<and> er = None then ?e else er"
  from Cons[of ?er "log @ [?ev]"] obtain evs where
    evs: "mwriter_Close_loop E ws ?er (log @ [?ev]) =
            ((if ?er \<noteq> None then ?er else first_failure evs), (log @ [?ev]) @ evs)"
      "map ev_conn evs = ws" "list_all is_close evs" by blast
  have a: "mwriter_Close_loop E (w # ws) er log =
             ((if er \<noteq> None then er else first_failure (?ev # evs)), log @ (?ev # evs))"
    using evs(1) by (cases ?e) (auto simp add: msgWriter_Close_def first_failure_def Let_def)
  have b: "map ev_conn (?ev # evs) = w # ws" using evs(2) by simp
  have c: "list_all is_close (?ev # evs)" using evs(3) by simp
  show ?case by (intro exI[of _ "?ev # evs"] conjI a b c)
qed

text \<open>
  C4: a fan-out write with the gate open attempts the write of the message on every
  registered adapter, in whatever order the goroutines run, and returns only after all
  attempts are logged; with \<open>k\<close> adapters of which \<open>j\<close> fail it returns a non-nil error
  exactly when \<open>0 < j\<close>, and that error is the first failure encountered.
\<close>

theorem mwriter_write_fan_out:
  assumes "lock (mw_sem w) = Returns s"
  shows "\<exists>evs. mwriter_write E sched ctx w m log =
                 Returns (first_failure evs, w\<lparr>mw_sem := s\<rparr>, log @ evs)
      \<and> mset (map ev_conn evs) = mset (mw_ws w)
      \<and> length evs = length (mw_ws w)
      \<and> list_all (is_send m) evs
      \<and> (first_failure evs \<noteq> None) = (0 < failures evs)"
proof -
  obtain evs where evs:
    "run_writes E m (go_order sched (mw_ws w)) log = (map ev_err evs, log @ evs)"
    "map ev_conn evs = go_order sched (mw_ws w)" "list_all (is_send m) evs"
    using run_writes_events by blast
  have a: "mwriter_write E sched ctx w m log =
             Returns (first_failure evs, w\<lparr>mw_sem := s\<rparr>, log @ evs)"
    using assms evs(1) by (simp add: mwriter_write_def errgroup_Wait_first)
  have b: "mset (map ev_conn evs) = mset (mw_ws w)"
    using evs(2) by (simp add: go_order_mset)
  have c: "length evs = length (mw_ws w)"
    using b by (metis length_map size_mset)
  show ?thesis
    by (intro exI[of _ evs] conjI a b c evs(3) first_failure_iff)
qed

theorem mwriter_write_fan_out_witness:
  "lock (mw_sem mw_ready) = Returns open_gate
   \<and> (\<exists>evs. mwriter_write flaky [1] Background mw_ready hello [] =
                Returns (first_failure evs, mw_ready\<lparr>mw_sem := open_gate\<rparr>, [] @ evs)
         \<and> mset (map ev_conn evs) = mset (mw_ws mw_ready)
         \<and> length evs = length (mw_ws mw_ready)
         \<and> list_all (is_send hello) evs
         \<and> (first_failure evs \<noteq> None) = (0 < failures evs))
   \<and> mwriter_write flaky [1] Background mw_ready hello [] =
        Returns (Some (ConnError ''broken pipe''), mw_ready,
                 [EvSend 2 hello (Some (ConnError ''broken pipe'')),
                  EvSend 1 hello None, EvSend 3 hello None])"
proof -
  have gate: "lock (mw_sem mw_ready) = Returns open_gate"
    by (simp add: mw_ready_def open_gate_def lock_def chan_recv_def)
  have run: "mwriter_write flaky [1] Background mw_ready hello [] =
        Returns (Some (ConnError ''broken pipe''), mw_ready,
                 [EvSend 2 hello (Some (ConnError ''broken pipe'')),
                  EvSend 1 hello None, EvSend 3 hello None])"
    by (simp add: mwriter_write_def mw_ready_def open_gate_def lock_def chan_recv_def
        msgWriter_write_def flaky_def Let_def)
  show ?thesis
    using gate run mwriter_write_fan_out[OF gate, of flaky "[1]" Background hello "[]"]
    by blast
qed

text \<open>
  C5: \<^verbatim>\<open>mwriter.Close\<close> closes every registered adapter once, in list order and
  whether or not an earlier close failed, returns the first non-nil close error (nil when
  there is none), and leaves the adapter list empty.
\<close>

theorem mwriter_Close_closes_all:
  "\<exists>evs. mwriter_Close E w log = (first_failure evs, w\<lparr>mw_ws := []\<rparr>, log @ evs)
      \<and> map ev_conn evs = mw_ws w \<and> list_all is_close evs"
  using mwriter_Close_loop_events[of E "mw_ws w" None log]
  by (auto simp add: mwriter_Close_def)

theorem mwriter_Close_closes_all_witness:
  "(\<exists>evs. mwriter_Close flaky mw_ready [] = (first_failure evs, mw_ready\<lparr>mw_ws := []\<rparr>, [] @ evs)
      \<and> map ev_conn evs = mw_ws mw_ready \<and> list_all is_close evs)
   \<and> mwriter_Close flaky mw_ready [] =
       (Some (ConnError ''close 2''), mw_ready\<lparr>mw_ws := []\<rparr>,
        [EvClose 1 None, EvClose 2 (Some (ConnError ''close 2'')),
         EvClose 3 (Some (ConnError ''close 3''))])"
proof -
  have run: "mwriter_Close flaky mw_ready [] =
       (Some (ConnError ''close 2''), mw_ready\<lparr>mw_ws := []\<rparr>,
        [EvClose 1 None, EvClose 2 (Some (ConnError ''close 2'')),
         EvClose 3 (Some (ConnError ''close 3''))])"
    by (simp add: mwriter_Close_def mw_ready_def msgWriter_Close_def flaky_def Let_def)
  show ?thesis
    using run mwriter_Close_closes_all[of flaky mw_ready "[]"] by blast
qed

text \<open>
  C10: with the gate open and no adapter registered, \<^verbatim>\<open>mwriter.write\<close> returns nil at
  once and attempts no write: nothing is added to the log.
\<close>

theorem mwriter_write_no_adapters:
  assumes "lock (mw_sem w) = Returns s" and "mw_ws w = []"
  shows "mwriter_write E sched ctx w m log = Returns (None, w\<lparr>mw_sem := s\<rparr>, log)"
  using assms by (simp add: mwriter_write_def)

theorem mwriter_write_no_adapters_witness:
  "mwriter_addConn (newMWriter Background) 7 =
     Returns \<lparr>mw_ctx = Background, mw_ws = [7], mw_sem = open_gate\<rparr>
   \<and> mwriter_rmConn \<lparr>mw_ctx = Background, mw_ws = [7], mw_sem = open_gate\<rparr> 7 = mw_emptied
   \<and> lock (mw_sem mw_emptied) = Returns open_gate
   \<and> mw_ws mw_emptied = []
   \<and> mwriter_write flaky [0] Background mw_emptied hello [] = Returns (None, mw_emptied, [])"
proof -
  have gate: "lock (mw_sem mw_emptied) = Returns open_gate"
    by (simp add: mw_emptied_def open_gate_def lock_def chan_recv_def)
  have none: "mw_ws mw_emptied = []" by (simp add: mw_emptied_def)
  have add: "mwriter_addConn (newMWriter Background) 7 =
     Returns \<lparr>mw_ctx = Background, mw_ws = [7], mw_sem = open_gate\<rparr>"
    by (simp add: mwriter_addConn_def newMWriter_def open_gate_def chan_defs sem_defs)
  have rm: "mwriter_rmConn \<lparr>mw_ctx = Background, mw_ws = [7], mw_sem = open_gate\<rparr> 7 = mw_emptied"
    by (simp add: mwriter_rmConn_def mw_emptied_def cut_at_def)
  have same: "mw_emptied\<lparr>mw_sem := open_gate\<rparr> = mw_emptied" by (simp add: mw_emptied_def)
  show ?thesis
    using add rm gate none same
      mwriter_write_no_adapters[OF gate none, of flaky "[0]" Background hello "[]"]
    by simp
qed

section \<open>The readiness gate\<close>

text \<open>
  C1: the claim is that \<^verbatim>\<open>enable\<close> called any number of times, also concurrently from
  several \<^verbatim>\<open>addConn\<close> callers, never faults and leaves the gate ready.  Two callers of
  \<^verbatim>\<open>lbwriter.addConn\<close> on a new pool, which holds no lock around \<^verbatim>\<open>enable\<close>: both
  run the \<^verbatim>\<open>select\<close> while the channel is open and take \<^verbatim>\<open>default\<close>, the first
  closes the channel, and the \<^verbatim>\<open>close\<close> of the second panics.
\<close>

theorem enable_unserialised_faults:
  "lw_sem (newLBWriter Background) = newSemaphore
   \<and> run_sched [0, 1, 0, 1] ([AtSelect, AtSelect], lw_sem (newLBWriter Background)) =
       ([Finished, Faulted CloseOfClosedChannel], open_gate)"
  by (simp add: newLBWriter_def sched_step_def open_gate_def chan_defs sem_defs)

text \<open>
  The same two callers one after the other, as the mutex of \<^verbatim>\<open>qreader.addConn\<close> and
  \<^verbatim>\<open>mwriter.addConn\<close> orders them: no fault.
\<close>

lemma enable_serialised_ok:
  "run_sched [0, 0, 1, 1] ([AtSelect, AtSelect], newSemaphore) = ([Finished, Finished], open_gate)"
  by (simp add: sched_step_def open_gate_def chan_defs sem_defs)

lemma enable_twice: "ch_buf (ready s) = [] \<Longrightarrow> enable s = Returns s' \<Longrightarrow> enable s' = Returns s'"
  by (auto simp add: enable_whole_call)

subsection \<open>The fan-in pool keeps its gate and its queue in order\<close>

lemma qreader_listen_step_ok:
  assumes "qreader_listen_step E r pc (q, log) = Returns (pc', q', log')"
    and "\<not> ch_closed (q_c q)"
  shows "q_sem q' = q_sem q \<and> \<not> ch_closed (q_c q')"
  using assms
  by (cases pc) (auto simp add: msgReader_read_def msgReader_Close_def Let_def chan_send_def
      qreader_rmConn_def split: if_splits)

lemma qreader_listen_step_no_panic:
  assumes "\<not> ch_closed (q_c q)"
  shows "qreader_listen_step E r pc (q, log) \<noteq> Panics p"
  using assms
  by (cases pc) (auto simp add: msgReader_read_def msgReader_Close_def Let_def chan_send_def
      split: if_splits)

lemma qreader_read_ok:
  assumes "qreader_ok q"
  shows "qreader_read first ctx q m \<noteq> Panics p"
    and "qreader_read first ctx q m = Returns (e, m', q') \<Longrightarrow>
           q_sem q' = q_sem q \<and> \<not> ch_closed (q_c q')"
  using assms
  by (auto simp add: qreader_read_def qreader_ok_def lock_whole_call chan_recv_def
      split: if_splits select2.splits list.splits)

lemma qreader_do_ok:
  assumes "qreader_ok q"
  shows "(\<exists>b. qreader_do E a (q, log) = Blocks b) \<or>
         (\<exists>q' log'. qreader_do E a (q, log) = Returns (q', log') \<and> qreader_ok q' \<and>
            ch_closed (ready (q_sem q')) = (ch_closed (ready (q_sem q)) \<or> is_addConn a))"
proof (cases a)
  case (Q_addConn r)
  with assms show ?thesis by (simp add: qreader_addConn_def qreader_ok_def enable_whole_call)
next
  case (Q_rmConn r)
  with assms show ?thesis by (simp add: qreader_rmConn_def qreader_ok_def)
next
  case (Q_Close sched)
  with assms show ?thesis by (simp add: qreader_Close_def qreader_ok_def split: prod.splits)
next
  case (Q_read first ctx m)
  show ?thesis
  proof (cases "qreader_read first ctx q m")
    case (Blocks b)
    with Q_read show ?thesis by simp
  next
    case (Panics p)
    with qreader_read_ok(1)[OF assms] show ?thesis by blast
  next
    case (Returns x)
    obtain e m' q' where x: "x = (e, m', q')" by (cases x)
    from qreader_read_ok(2)[OF assms] Returns x
    have "q_sem q' = q_sem q \<and> \<not> ch_closed (q_c q')" by simp
    with Returns x Q_read assms show ?thesis by (simp add: qreader_ok_def)
  qed
next
  case (Q_listen r pc)
  have nc: "\<not> ch_closed (q_c q)" using assms by (simp add: qreader_ok_def)
  show ?thesis
  proof (cases "qreader_listen_step E r pc (q, log)")
    case (Blocks b)
    with Q_listen show ?thesis by simp
  next
    case (Panics p)
    with qreader_listen_step_no_panic[OF nc] show ?thesis by blast
  next
    case (Returns x)
    obtain pc' q' log' where x: "x = (pc', q', log')" by (cases x)
    from qreader_listen_step_ok[OF _ nc] Returns x
    have "q_sem q' = q_sem q \<and> \<not> ch_closed (q_c q')" by simp
    with Returns x Q_listen assms show ?thesis by (simp add: qreader_ok_def)
  qed
next
  case Q_cancel
  with assms show ?thesis by (simp add: qreader_ok_def)
qed

lemma qreader_history_gate:
  assumes "qreader_ok q"
  shows "\<exists>q' log'. qreader_history E ops (q, log) = Returns (q', log') \<and> qreader_ok q' \<and>
            ch_closed (ready (q_sem q')) =
              (ch_closed (ready (q_sem q)) \<or> (\<exists>a \<in> set ops. is_addConn a))"
  using assms
proof (induction ops arbitrary: q log)
  case Nil
  then show ?case by simp
next
  case (Cons a ops)
  from qreader_do_ok[OF Cons.prems, of E a log] show ?case
  proof
    assume "\<exists>b. qreader_do E a (q, log) = Blocks b"
    then obtain b where b: "qreader_do E a (q, log) = Blocks b" ..
    have na: "\<not> is_addConn a"
    proof
      assume "is_addConn a"
      then obtain r where "a = Q_addConn r" by (cases a) simp_all
      with b Cons.prems show False
        by (simp add: qreader_addConn_def qreader_ok_def enable_whole_call)
    qed
    from Cons.IH[OF Cons.prems, of log] b na show ?thesis by simp
  next
    assume "\<exists>q' log'. qreader_do E a (q, log) = Returns (q', log') \<and> qreader_ok q' \<and>
            ch_closed (ready (q_sem q')) = (ch_closed (ready (q_sem q)) \<or> is_addConn a)"
    then obtain q1 log1 where s: "qreader_do E a (q, log) = Returns (q1, log1)" "qreader_ok q1"
       "ch_closed (ready (q_sem q1)) = (ch_closed (ready (q_sem q)) \<or> is_addConn a)" by blast
    from Cons.IH[OF s(2), of log1] s(1,3) show ?thesis by auto
  qed
qed

lemma qreader_read_gate:
  "ch_buf (ready (q_sem q)) = [] \<Longrightarrow>
   (qreader_read first ctx q m = Blocks OnGate) = (\<not> ch_closed (ready (q_sem q)))"
  by (auto simp add: qreader_read_def lock_whole_call chan_recv_def
      split: if_splits select2.splits list.splits)

text \<open>
  C9: after any history of whole \<^verbatim>\<open>enable\<close> and \<^verbatim>\<open>lock\<close> calls on a new gate,
  \<^verbatim>\<open>lock\<close> returns if \<^verbatim>\<open>enable\<close> is in the history and waits if it is not; so once
  the gate is open no longer history makes \<^verbatim>\<open>lock\<close> wait again.  For the pools: after
  any history of a new fan-in pool (calls, worker steps, cancellation) \<^verbatim>\<open>read\<close> waits at
  the gate exactly when the history has no \<^verbatim>\<open>addConn\<close>; a write on a new broadcast or
  load-balanced pool waits at the gate, whatever its context, and does not after the first
  \<^verbatim>\<open>addConn\<close>.
\<close>

theorem readiness_gate:
  "(\<exists>s. gate_run ops newSemaphore = Returns s
       \<and> (lock s = Returns s) = (Enable \<in> set ops)
       \<and> (lock s = Blocks OnGate) = (Enable \<notin> set ops))
   \<and> (\<exists>q log. qreader_history E qops (newQReader c, []) = Returns (q, log)
       \<and> (qreader_read first ctx q m = Blocks OnGate) = (\<not> (\<exists>a \<in> set qops. is_addConn a)))
   \<and> mwriter_write E sched ctx (newMWriter c) m evs = Blocks OnGate
   \<and> (\<exists>mw. mwriter_addConn (newMWriter c) w = Returns mw
       \<and> mwriter_write E sched ctx mw m evs \<noteq> Blocks OnGate)
   \<and> lbwriter_write first ctx (newLBWriter c) m = Blocks OnGate
   \<and> (\<exists>lw. lbwriter_addConn (newLBWriter c) w = Returns lw
       \<and> lbwriter_write first ctx lw m \<noteq> Blocks OnGate)"
proof -
  have fresh: "ch_buf (ready newSemaphore) = []" "\<not> ch_closed (ready newSemaphore)"
    by (simp_all add: newSemaphore_def make_chan_def)
  from gate_run_closed_iff[OF fresh(1), of ops] fresh(2)
  obtain s where s: "gate_run ops newSemaphore = Returns s" "ch_buf (ready s) = []"
    "ch_closed (ready s) = (Enable \<in> set ops)" by auto
  have gate: "\<exists>s. gate_run ops newSemaphore = Returns s
       \<and> (lock s = Returns s) = (Enable \<in> set ops)
       \<and> (lock s = Blocks OnGate) = (Enable \<notin> set ops)"
    using s by (auto simp add: lock_whole_call)
  have ok: "qreader_ok (newQReader c)"
    by (simp add: qreader_ok_def newQReader_def newSemaphore_def make_chan_def)
  have shut: "\<not> ch_closed (ready (q_sem (newQReader c)))"
    by (simp add: newQReader_def newSemaphore_def make_chan_def)
  from qreader_history_gate[OF ok, of E qops "[]"] shut
  obtain q log where q: "qreader_history E qops (newQReader c, []) = Returns (q, log)"
    "qreader_ok q" "ch_closed (ready (q_sem q)) = (\<exists>a \<in> set qops. is_addConn a)" by auto
  have "(qreader_read first ctx q m = Blocks OnGate) = (\<not> (\<exists>a \<in> set qops. is_addConn a))"
    using q(2,3) qreader_read_gate[of q first ctx m] by (simp add: qreader_ok_def)
  with q(1) have fanin: "\<exists>q log. qreader_history E qops (newQReader c, []) = Returns (q, log)
       \<and> (qreader_read first ctx q m = Blocks OnGate) = (\<not> (\<exists>a \<in> set qops. is_addConn a))"
    by blast
  have mw0: "mwriter_write E sched ctx (newMWriter c) m evs = Blocks OnGate"
    by (simp add: mwriter_write_def newMWriter_def chan_defs sem_defs)
  have mw1: "\<exists>mw. mwriter_addConn (newMWriter c) w = Returns mw
       \<and> mwriter_write E sched ctx mw m evs \<noteq> Blocks OnGate"
    by (simp add: mwriter_addConn_def mwriter_write_def newMWriter_def chan_defs sem_defs
        split: prod.splits)
  have lw0: "lbwriter_write first ctx (newLBWriter c) m = Blocks OnGate"
    by (simp add: lbwriter_write_def newLBWriter_def chan_defs sem_defs)
  have lw1: "\<exists>lw. lbwriter_addConn (newLBWriter c) w = Returns lw
       \<and> lbwriter_write first ctx lw m \<noteq> Blocks OnGate"
    by (simp add: lbwriter_addConn_def lbwriter_write_def newLBWriter_def chan_defs sem_defs
        select2_def split: select2.splits)
  show ?thesis by (intro conjI gate fanin mw0 mw1 lw0 lw1)
qed

theorem readiness_gate_witness:
  "gate_run [Lock, Enable, Lock, Enable] newSemaphore = Returns open_gate
   \<and> lock open_gate = Returns open_gate
   \<and> gate_run [Lock, Lock] newSemaphore = Returns newSemaphore
   \<and> lock newSemaphore = Blocks OnGate
   \<and> qreader_history flaky [Q_read True Cancelled zero_msg, Q_rmConn 1, Q_cancel]
        (newQReader Background, []) = Returns (newQReader Cancelled, [])
   \<and> qreader_read True Cancelled (newQReader Cancelled) zero_msg = Blocks OnGate
   \<and> qreader_history flaky [Q_read True Cancelled zero_msg, Q_addConn 1]
        (newQReader Background, []) = Returns (q_ready, [])
   \<and> qreader_read True Cancelled q_ready zero_msg \<noteq> Blocks OnGate"
proof -
  have a: "gate_run [Lock, Enable, Lock, Enable] newSemaphore = Returns open_gate"
    by (simp add: open_gate_def chan_defs sem_defs)
  have b: "gate_run [Lock, Lock] newSemaphore = Returns newSemaphore"
    by (simp add: chan_defs sem_defs)
  have c: "qreader_history flaky [Q_read True Cancelled zero_msg, Q_rmConn 1, Q_cancel]
        (newQReader Background, []) = Returns (newQReader Cancelled, [])"
    by (simp add: qreader_read_def qreader_rmConn_def newQReader_def cut_at_def chan_defs sem_defs)
  have d: "qreader_history flaky [Q_read True Cancelled zero_msg, Q_addConn 1]
        (newQReader Background, []) = Returns (q_ready, [])"
    by (simp add: qreader_read_def qreader_addConn_def newQReader_def q_ready_def open_gate_def
        chan_defs sem_defs)
  show ?thesis
    using a b c d
      readiness_gate[of "[Lock, Enable, Lock, Enable]" flaky
        "[Q_read True Cancelled zero_msg, Q_addConn 1]" Background True Cancelled zero_msg]
      readiness_gate[of "[Lock, Lock]" flaky
        "[Q_read True Cancelled zero_msg, Q_rmConn 1, Q_cancel]" Background True Cancelled zero_msg]
    by auto
qed

section \<open>The fan-in pool\<close>

lemma qreader_listen_run_Done: "qreader_listen_run E r n L_Done st = Returns (L_Done, st)"
  by (induction n) (cases st, simp)+

text \<open>
  The steps of a fan-in worker after a read.  Finding its context cancelled at the
  \<^verbatim>\<open>select\<close> it sends nothing, closes its adapter, calls \<^verbatim>\<open>rmConn\<close> and ends.
  Finding it live after a failed read it sends the failed message on the shared queue
  once, closes its adapter, calls \<^verbatim>\<open>rmConn\<close> and ends.  \<^verbatim>\<open>rmConn\<close> takes the
  first occurrence of the adapter out of the list as it is at that moment, and nothing if
  the list does not hold it.  While the queue is full the worker stays at the send with the
  message in hand, and from whatever state the pool is in when there is room again it sends
  it once and ends the same way.  Further steps of an ended worker change nothing.
\<close>

theorem qreader_listen_failed_read:
  assumes "conn_read E log r = m" and "conn_Close E (log @ [EvRead r m]) r = e"
  shows "(ctx_Done (q_ctx q) \<longrightarrow>
            qreader_listen_run E r (4 + n) L_Read (q, log) =
              Returns (L_Done, q\<lparr>q_rs := remove1 r (q_rs q)\<rparr>, log @ [EvRead r m, EvClose r e]))
       \<and> (\<not> ctx_Done (q_ctx q) \<and> err m \<noteq> None \<and> \<not> ch_closed (q_c q)
            \<and> length (ch_buf (q_c q)) < ch_cap (q_c q) \<longrightarrow>
            qreader_listen_run E r (5 + n) L_Read (q, log) =
              Returns (L_Done,
                       q\<lparr>q_c := (q_c q)\<lparr>ch_buf := ch_buf (q_c q) @ [m]\<rparr>,
                          q_rs := remove1 r (q_rs q)\<rparr>,
                       log @ [EvRead r m, EvClose r e]))
       \<and> (\<not> ctx_Done (q_ctx q) \<and> \<not> ch_closed (q_c q)
            \<and> \<not> length (ch_buf (q_c q)) < ch_cap (q_c q) \<longrightarrow>
            qreader_listen_run E r 2 L_Read (q, log) =
              Returns (L_Send (err m) m, q, log @ [EvRead r m])
            \<and> qreader_listen_step E r (L_Send (err m) m) (q, log @ [EvRead r m]) = Blocks OnQueue)
       \<and> (err m \<noteq> None \<and> \<not> ch_closed (q_c q')
            \<and> length (ch_buf (q_c q')) < ch_cap (q_c q') \<longrightarrow>
            qreader_listen_run E r (3 + n) (L_Send (err m) m) (q', log') =
              Returns (L_Done,
                       q'\<lparr>q_c := (q_c q')\<lparr>ch_buf := ch_buf (q_c q') @ [m]\<rparr>,
                           q_rs := remove1 r (q_rs q')\<rparr>,
                       log' @ [EvClose r (conn_Close E log' r)]))"
proof -
  have n4: "4 + n = Suc (Suc (Suc (Suc n)))" and n5: "5 + n = Suc (Suc (Suc (Suc (Suc n))))"
    and n3: "3 + n = Suc (Suc (Suc n))" and n2: "2 = Suc (Suc 0)" by simp_all
  show ?thesis
    unfolding n4 n5 n3 n2 using assms
    by (auto simp add: msgReader_read_def msgReader_Close_def Let_def chan_send_def
        qreader_rmConn_def rmConn_remove1 qreader_listen_run_Done)
qed

theorem qreader_listen_failed_read_witness:
  "conn_read flaky [] 1 = eof \<and> conn_Close flaky ([] @ [EvRead 1 eof]) 1 = None
   \<and> err eof = Some (ConnError ''EOF'')
   \<and> qreader_listen_run flaky 1 5 L_Read (q_ready, []) =
        Returns (L_Done,
                 q_ready\<lparr>q_c := \<lparr>ch_buf = [eof], ch_cap = 10, ch_closed = False\<rparr>, q_rs := []\<rparr>,
                 [EvRead 1 eof, EvClose 1 None])
   \<and> qreader_listen_run flaky 1 4 L_Read (q_cancelled, []) =
        Returns (L_Done, q_cancelled\<lparr>q_rs := []\<rparr>, [EvRead 1 eof, EvClose 1 None])"
proof -
  have a: "conn_read flaky [] 1 = eof" by (simp add: flaky_def eof_def)
  have b: "conn_Close flaky ([] @ [EvRead 1 eof]) 1 = None" by (simp add: flaky_def)
  have c: "err eof = Some (ConnError ''EOF'')" by (simp add: eof_def)
  have live: "\<not> ctx_Done (q_ctx q_ready) \<and> err eof \<noteq> None \<and> \<not> ch_closed (q_c q_ready)
      \<and> length (ch_buf (q_c q_ready)) < ch_cap (q_c q_ready)"
    by (simp add: q_ready_def ctx_Done_def make_chan_def eof_def)
  have gone: "ctx_Done (q_ctx q_cancelled)" by (simp add: q_cancelled_def ctx_Done_def)
  have upd: "q_ready\<lparr>q_c := (q_c q_ready)\<lparr>ch_buf := ch_buf (q_c q_ready) @ [eof]\<rparr>,
                     q_rs := remove1 1 (q_rs q_ready)\<rparr> =
             q_ready\<lparr>q_c := \<lparr>ch_buf = [eof], ch_cap = 10, ch_closed = False\<rparr>, q_rs := []\<rparr>"
    "q_cancelled\<lparr>q_rs := remove1 1 (q_rs q_cancelled)\<rparr> = q_cancelled\<lparr>q_rs := []\<rparr>"
    by (simp_all add: q_ready_def q_cancelled_def make_chan_def)
  from qreader_listen_failed_read[OF a b, of q_ready 0 q_ready "[]"] live
  have "qreader_listen_run flaky 1 (5 + 0) L_Read (q_ready, []) =
          Returns (L_Done,
                   q_ready\<lparr>q_c := (q_c q_ready)\<lparr>ch_buf := ch_buf (q_c q_ready) @ [eof]\<rparr>,
                           q_rs := remove1 1 (q_rs q_ready)\<rparr>,
                   [] @ [EvRead 1 eof, EvClose 1 None])"
    by blast
  then have r1: "qreader_listen_run flaky 1 5 L_Read (q_ready, []) =
        Returns (L_Done,
                 q_ready\<lparr>q_c := \<lparr>ch_buf = [eof], ch_cap = 10, ch_closed = False\<rparr>, q_rs := []\<rparr>,
                 [EvRead 1 eof, EvClose 1 None])"
    by (simp only: upd add_0_right append_Nil)
  from qreader_listen_failed_read[OF a b, of q_cancelled 0 q_ready "[]"] gone
  have "qreader_listen_run flaky 1 (4 + 0) L_Read (q_cancelled, []) =
          Returns (L_Done, q_cancelled\<lparr>q_rs := remove1 1 (q_rs q_cancelled)\<rparr>,
                   [] @ [EvRead 1 eof, EvClose 1 None])"
    by blast
  then have r2: "qreader_listen_run flaky 1 4 L_Read (q_cancelled, []) =
        Returns (L_Done, q_cancelled\<lparr>q_rs := []\<rparr>, [EvRead 1 eof, EvClose 1 None])"
    by (simp only: upd add_0_right append_Nil)
  show ?thesis by (intro conjI a b c r1 r2)
qed

text \<open>
  A worker that has passed its \<^verbatim>\<open>select\<close> does not look at the context again: parked
  at the send, it enqueues its message when there is room, cancelled or not.
\<close>

lemma qreader_listen_send_ignores_cancel:
  assumes "\<not> ch_closed (q_c q)" and "length (ch_buf (q_c q)) < ch_cap (q_c q)"
  shows "qreader_listen_step E r (L_Send er m) (q\<lparr>q_ctx := Cancelled\<rparr>, log) =
           Returns (if er \<noteq> None then L_Close else L_Read,
                    q\<lparr>q_ctx := Cancelled, q_c := (q_c q)\<lparr>ch_buf := ch_buf (q_c q) @ [m]\<rparr>\<rparr>,
                    log)"
  using assms by (simp add: chan_send_def)

text \<open>
  C8: the claim is that a fan-in worker whose read fails under a live context enqueues the
  failed message once and then terminates, removing its adapter from the active list and
  closing it.  \<^verbatim>\<open>qreader.addConn\<close> starts the worker with \<^verbatim>\<open>go q.listen(q.ctx, r)\<close>
  before it takes the mutex and appends the adapter.  On a new pool, a worker whose first
  read fails runs to its end before that append: it enqueues the message, closes the
  adapter, and its \<^verbatim>\<open>q.rmConn(r)\<close> finds nothing to remove.  Then \<^verbatim>\<open>addConn\<close>
  appends the adapter, and the closed adapter of the ended worker stays in the active
  list: no further step of the worker takes it out.
\<close>

theorem qreader_listen_ends_before_addConn_appends:
  "conn_read flaky [] 1 = eof
   \<and> qreader_listen_run flaky 1 5 L_Read (newQReader Background, []) =
        Returns (L_Done, q_unregistered, [EvRead 1 eof, EvClose 1 None])
   \<and> qreader_addConn q_unregistered 1 = Returns q_orphan
   \<and> q_rs q_orphan = [1]
   \<and> qreader_listen_run flaky 1 3 L_Done (q_orphan, [EvRead 1 eof, EvClose 1 None]) =
        Returns (L_Done, q_orphan, [EvRead 1 eof, EvClose 1 None])"
proof -
  have five: "5 = Suc (Suc (Suc (Suc (Suc 0))))" and three: "3 = Suc (Suc (Suc 0))"
    by simp_all
  show ?thesis
    unfolding five three
    by (simp add: flaky_def eof_def newQReader_def q_unregistered_def q_orphan_def
        open_gate_def msgReader_read_def msgReader_Close_def Let_def ctx_Done_def
        qreader_rmConn_def qreader_addConn_def cut_at_def chan_defs sem_defs)
qed

text \<open>
  C3: the claim is that a pool read or write whose context is cancelled before a message
  is received or enqueued returns the context's error, for \<^verbatim>\<open>qreader.read\<close> as for
  \<^verbatim>\<open>lbwriter.write\<close>.  A fan-in pool after its first \<^verbatim>\<open>addConn\<close>, with an empty
  queue, read with a cancelled context into a zero \<^verbatim>\<open>Msg\<close>: the \<^verbatim>\<open>ctx.Done()\<close> case
  is the only one that can proceed, and \<^verbatim>\<open>read\<close> returns \<^verbatim>\<open>msg.err\<close>, which is nil.
\<close>

theorem qreader_read_cancelled_returns_nil:
  "qreader_addConn (newQReader Background) 1 = Returns q_ready
   \<and> ctx_Err Cancelled = Some Canceled
   \<and> qreader_read True Cancelled q_ready zero_msg = Returns (None, zero_msg, q_ready)
   \<and> qreader_read False Cancelled q_ready zero_msg = Returns (None, zero_msg, q_ready)"
  by (simp add: qreader_addConn_def newQReader_def q_ready_def open_gate_def qreader_read_def
      select2_def ctx_Done_def zero_msg_def chan_defs sem_defs)

text \<open>What \<^verbatim>\<open>read\<close> returns on cancellation is whatever error the caller's message held.\<close>

lemma qreader_read_cancelled_returns_msg_err:
  assumes "lock (q_sem q) = Returns s" and "ctx_Done ctx" and "\<not> can_recv (q_c q)"
  shows "qreader_read first ctx q m = Returns (err m, m, q\<lparr>q_sem := s\<rparr>)"
  using assms by (simp add: qreader_read_def select2_def)

section \<open>Closing a pool twice\<close>

text \<open>
  C2: the claim is that a second \<^verbatim>\<open>Close\<close> returns without faulting on every pool.
  \<^verbatim>\<open>lbwriter.Close\<close> is \<^verbatim>\<open>close(lw.c)\<close> with no guard: on a new pool the first call
  returns nil and the second panics.
\<close>

theorem lbwriter_Close_twice_panics:
  "lbwriter_Close (newLBWriter Background) = Returns (None, lw_shut)
   \<and> lbwriter_Close lw_shut = Panics CloseOfClosedChannel"
  by (simp add: lbwriter_Close_def newLBWriter_def lw_shut_def chan_defs)

lemma lbwriter_Close_again:
  "lbwriter_Close lw = Returns (e, lw') \<Longrightarrow> lbwriter_Close lw' = Panics CloseOfClosedChannel"
  by (auto simp add: lbwriter_Close_def chan_close_def split: if_splits)

text \<open>The other two pools clear their list, so their second \<^verbatim>\<open>Close\<close> closes nothing and returns nil.\<close>

lemma mwriter_Close_again:
  "mwriter_Close E w log = (e, w', log') \<Longrightarrow> mwriter_Close E w' log' = (None, w', log')"
  by (auto simp add: mwriter_Close_def split: prod.splits)

lemma qreader_Close_again:
  "qreader_Close E sched q log = (e, q', log') \<Longrightarrow>
   qreader_Close E sched' q' log' = (None, q', log')"
  by (auto simp add: qreader_Close_def split: prod.splits)

section \<open>The load-balanced pool\<close>

text \<open>
  C6, as stated: if the context is cancelled before the message is enqueued, \<^verbatim>\<open>write\<close>
  returns the context's error and the message is not enqueued.  With a context cancelled
  before the call and room in the queue both cases of the \<^verbatim>\<open>select\<close> can proceed, and
  when the send is picked the message is enqueued and \<^verbatim>\<open>write\<close> returns nil.
\<close>

theorem lbwriter_write_cancelled_enqueues:
  "lbwriter_addConn (newLBWriter Background) 1 = Returns lw_ready
   \<and> ctx_Err Cancelled = Some Canceled
   \<and> lbwriter_write False Cancelled lw_ready hello = Returns (None, lw_queued)"
  by (simp add: lbwriter_addConn_def newLBWriter_def lw_ready_def lw_queued_def open_gate_def
      lbwriter_write_def select2_def ctx_Done_def chan_defs sem_defs)

text \<open>
  C6, amended: with the gate open and the queue not closed, a \<^verbatim>\<open>write\<close> that returns an
  error returns the context's error and leaves the queue as it was; one that returns nil
  has put the message at the end of the queue, once.  A cancelled context and a full queue
  give the error; a live context and room in the queue give nil; a cancelled context and
  room in the queue give either, as the \<^verbatim>\<open>select\<close> picks; a live context and a full
  queue make the call wait.
\<close>

theorem lbwriter_write_outcomes:
  assumes "lock (lw_sem lw) = Returns s" and "\<not> ch_closed (lw_c lw)"
  shows "(\<forall>e lw'. lbwriter_write first ctx lw m = Returns (Some e, lw') \<longrightarrow>
            ctx_Err ctx = Some e \<and> lw_c lw' = lw_c lw)
       \<and> (\<forall>lw'. lbwriter_write first ctx lw m = Returns (None, lw') \<longrightarrow>
            lw_c lw' = (lw_c lw)\<lparr>ch_buf := ch_buf (lw_c lw) @ [m]\<rparr>)
       \<and> (ctx_Done ctx \<and> \<not> length (ch_buf (lw_c lw)) < ch_cap (lw_c lw) \<longrightarrow>
            lbwriter_write first ctx lw m = Returns (ctx_Err ctx, lw\<lparr>lw_sem := s\<rparr>))
       \<and> (\<not> ctx_Done ctx \<and> length (ch_buf (lw_c lw)) < ch_cap (lw_c lw) \<longrightarrow>
            lbwriter_write first ctx lw m =
              Returns (None, lw\<lparr>lw_sem := s, lw_c := (lw_c lw)\<lparr>ch_buf := ch_buf (lw_c lw) @ [m]\<rparr>\<rparr>))
       \<and> (ctx_Done ctx \<and> length (ch_buf (lw_c lw)) < ch_cap (lw_c lw) \<longrightarrow>
            lbwriter_write True ctx lw m = Returns (ctx_Err ctx, lw\<lparr>lw_sem := s\<rparr>)
            \<and> lbwriter_write False ctx lw m =
                Returns (None, lw\<lparr>lw_sem := s, lw_c := (lw_c lw)\<lparr>ch_buf := ch_buf (lw_c lw) @ [m]\<rparr>\<rparr>))
       \<and> (\<not> ctx_Done ctx \<and> \<not> length (ch_buf (lw_c lw)) < ch_cap (lw_c lw) \<longrightarrow>
            lbwriter_write first ctx lw m = Blocks OnQueue)"
  using assms
  by (auto simp add: lbwriter_write_def select2_def ctx_Done_def chan_send_def can_send_def
      split: if_splits)

theorem lbwriter_write_outcomes_witness:
  "lock (lw_sem lw_ready) = Returns open_gate \<and> \<not> ch_closed (lw_c lw_ready)
   \<and> lbwriter_write True Cancelled lw_ready hello = Returns (Some Canceled, lw_ready)
   \<and> lbwriter_write True Background lw_ready hello = Returns (None, lw_queued)
   \<and> lock (lw_sem lw_full) = Returns open_gate \<and> \<not> ch_closed (lw_c lw_full)
   \<and> lbwriter_write False TimedOut lw_full hello = Returns (Some DeadlineExceeded, lw_full)
   \<and> lbwriter_write False Background lw_full hello = Blocks OnQueue"
proof -
  have g1: "lock (lw_sem lw_ready) = Returns open_gate"
    by (simp add: lw_ready_def open_gate_def lock_def chan_recv_def)
  have o1: "\<not> ch_closed (lw_c lw_ready)" by (simp add: lw_ready_def make_chan_def)
  have g2: "lock (lw_sem lw_full) = Returns open_gate"
    by (simp add: lw_full_def open_gate_def lock_def chan_recv_def)
  have o2: "\<not> ch_closed (lw_c lw_full)" by (simp add: lw_full_def)
  have room: "length (ch_buf (lw_c lw_ready)) < ch_cap (lw_c lw_ready)"
    by (simp add: lw_ready_def make_chan_def)
  have full: "\<not> length (ch_buf (lw_c lw_full)) < ch_cap (lw_c lw_full)"
    by (simp add: lw_full_def)
  have ctx: "ctx_Done Cancelled" "ctx_Done TimedOut" "\<not> ctx_Done Background"
    by (simp_all add: ctx_Done_def)
  have upd: "lw_ready\<lparr>lw_sem := open_gate\<rparr> = lw_ready" "lw_full\<lparr>lw_sem := open_gate\<rparr> = lw_full"
    by (simp_all add: lw_ready_def lw_full_def)
  from lbwriter_write_outcomes[OF g1 o1, of True Cancelled hello] ctx(1) room
  have "lbwriter_write True Cancelled lw_ready hello =
          Returns (ctx_Err Cancelled, lw_ready\<lparr>lw_sem := open_gate\<rparr>)"
    by blast
  then have r1: "lbwriter_write True Cancelled lw_ready hello = Returns (Some Canceled, lw_ready)"
    by (simp only: upd ctx_Err.simps)
  from lbwriter_write_outcomes[OF g1 o1, of True Background hello] ctx(3) room
  have "lbwriter_write True Background lw_ready hello =
          Returns (None, lw_ready\<lparr>lw_sem := open_gate,
              lw_c := (lw_c lw_ready)\<lparr>ch_buf := ch_buf (lw_c lw_ready) @ [hello]\<rparr>\<rparr>)"
    by blast
  then have r2: "lbwriter_write True Background lw_ready hello = Returns (None, lw_queued)"
    by (simp add: lw_ready_def lw_queued_def make_chan_def)
  from lbwriter_write_outcomes[OF g2 o2, of False TimedOut hello] ctx(2) full
  have "lbwriter_write False TimedOut lw_full hello =
          Returns (ctx_Err TimedOut, lw_full\<lparr>lw_sem := open_gate\<rparr>)"
    by blast
  then have r3: "lbwriter_write False TimedOut lw_full hello =
          Returns (Some DeadlineExceeded, lw_full)"
    by (simp only: upd ctx_Err.simps)
  from lbwriter_write_outcomes[OF g2 o2, of False Background hello] ctx(3) full
  have r4: "lbwriter_write False Background lw_full hello = Blocks OnQueue"
    by blast
  show ?thesis by (intro conjI g1 o1 r1 r2 g2 o2 r3 r4)
qed

text \<open>
  Every step of a worker that completes keeps each message where the claim C7 wants it: in
  the queue, in the worker's hands, or delivered.  A failed write followed by the send puts
  the same message at the end of a queue that is open and has room.
\<close>

lemma delivered_snoc: "delivered (log @ [ev]) = delivered log + delivered [ev]"
  by (induction log rule: delivered.induct) simp_all

lemma lbwriter_listen_step_keeps:
  assumes "lbwriter_listen_step E first w pc (lw, log) = Returns (pc', lw', log')"
  shows "mset (ch_buf (lw_c lw')) + held pc' + delivered log' =
         mset (ch_buf (lw_c lw)) + held pc + delivered log"
proof (cases pc)
  case W_Select
  with assms show ?thesis
    by (auto simp add: chan_recv_def split: select2.splits list.splits if_splits)
next
  case (W_Write m)
  with assms show ?thesis
    by (cases "conn_SendMsg E log w m") (auto simp add: msgWriter_write_def Let_def delivered_snoc)
next
  case (W_Requeue m)
  with assms show ?thesis
    by (auto simp add: chan_send_def split: if_splits)
next
  case W_Close
  with assms show ?thesis
    by (auto simp add: msgWriter_Close_def Let_def delivered_snoc)
next
  case W_RmConn
  with assms show ?thesis by (auto simp add: lbwriter_rmConn_def)
next
  case W_Done
  with assms show ?thesis by auto
qed

lemma lbwriter_listen_requeues:
  assumes "conn_SendMsg E log w m \<noteq> None" and "\<not> ch_closed (lw_c lw)"
    and "length (ch_buf (lw_c lw)) < ch_cap (lw_c lw)"
  shows "lbwriter_listen_run E [f1, f2] w (W_Write m) (lw, log) =
     Returns (W_Select, lw\<lparr>lw_c := (lw_c lw)\<lparr>ch_buf := ch_buf (lw_c lw) @ [m]\<rparr>\<rparr>,
              log @ [EvSend w m (conn_SendMsg E log w m)])"
  using assms by (auto simp add: msgWriter_write_def Let_def chan_send_def)

text \<open>
  C7: the claim is that whenever a worker's write fails the same message is put back on
  the queue and the worker goes on, so that an accepted message is always in the queue,
  with a worker, or delivered.  A pool with one adapter, whose connection fails every
  write: a message is written to the pool and the pool is closed while the message is
  still queued.  The worker receives the message from the closed queue (\<^verbatim>\<open>ok\<close> is
  true, the buffer is drained first), its write fails, and the send that should put the
  message back panics on the closed channel: the message is in no queue, with no worker,
  and not delivered.
\<close>

theorem lbwriter_listen_requeue_after_Close_panics:
  "lbwriter_addConn (newLBWriter Background) 2 = Returns lw_ready
   \<and> lbwriter_write True Background lw_ready hello = Returns (None, lw_queued)
   \<and> lbwriter_Close lw_queued = Returns (None, lw_closing)
   \<and> lbwriter_listen_run flaky [True, True] 2 W_Select (lw_closing, []) =
        Returns (W_Requeue hello, lw_drained, [EvSend 2 hello (Some (ConnError ''broken pipe''))])
   \<and> lbwriter_listen_step flaky True 2 (W_Requeue hello)
        (lw_drained, [EvSend 2 hello (Some (ConnError ''broken pipe''))]) =
        Panics SendOnClosedChannel
   \<and> lbwriter_listen_run flaky [True, True, True] 2 W_Select (lw_closing, []) =
        Panics SendOnClosedChannel"
  by (simp add: lbwriter_addConn_def newLBWriter_def lw_ready_def lw_queued_def lw_closing_def
      lw_drained_def open_gate_def lbwriter_write_def lbwriter_Close_def flaky_def
      msgWriter_write_def Let_def select2_def ctx_Done_def chan_defs sem_defs)

section \<open>Further properties of the pools\<close>

text \<open>
  Whole calls of \<^verbatim>\<open>enable\<close>, one after the other and however many: none faults, and
  \<^verbatim>\<open>lock\<close> returns afterwards.
\<close>

theorem enable_serialised_never_faults:
  "\<exists>s. gate_run (Enable # replicate n Enable) newSemaphore = Returns s \<and> lock s = Returns s"
proof -
  have "ch_buf (ready newSemaphore) = []" by (simp add: newSemaphore_def make_chan_def)
  from gate_run_closed_iff[OF this, of "Enable # replicate n Enable"]
  obtain s where s: "gate_run (Enable # replicate n Enable) newSemaphore = Returns s"
    "ch_buf (ready s) = []" "ch_closed (ready s)" by auto
  then show ?thesis by (auto simp add: lock_whole_call)
qed

text \<open>
  A second \<^verbatim>\<open>Close\<close> of a broadcast pool or of a fan-in pool closes no adapter and
  returns nil.
\<close>

theorem Close_twice_list_pools:
  "(case mwriter_Close E w log of (e, w', log') \<Rightarrow>
      mwriter_Close E w' log' = (None, w', log'))
   \<and> (case qreader_Close E sched q log of (e, q', log') \<Rightarrow>
      qreader_Close E sched' q' log' = (None, q', log'))"
  by (auto simp add: mwriter_Close_def qreader_Close_def split: prod.splits)

text \<open>
  \<^verbatim>\<open>rmConn\<close> of the two pools with a list removes the first occurrence of the adapter
  and nothing else; \<^verbatim>\<open>lbwriter.rmConn\<close> changes nothing.
\<close>

theorem rmConn_removes_first_occurrence:
  "qreader_rmConn q r = q\<lparr>q_rs := remove1 r (q_rs q)\<rparr>
   \<and> mwriter_rmConn mw w = mw\<lparr>mw_ws := remove1 w (mw_ws mw)\<rparr>
   \<and> lbwriter_rmConn lw w = lw"
  by (simp add: qreader_rmConn_def mwriter_rmConn_def lbwriter_rmConn_def rmConn_remove1)

text \<open>
  A step of a load-balanced worker that completes neither loses nor duplicates a message:
  the messages in the queue, in the worker's hands and delivered are together the same
  before and after.
\<close>

theorem lbwriter_listen_keeps_messages:
  assumes "lbwriter_listen_step E first w pc (lw, log) = Returns (pc', lw', log')"
  shows "mset (ch_buf (lw_c lw')) + held pc' + delivered log' =
         mset (ch_buf (lw_c lw)) + held pc + delivered log"
  using assms by (rule lbwriter_listen_step_keeps)

theorem lbwriter_listen_keeps_messages_witness:
  "lbwriter_listen_step flaky True 2 (W_Write hello) (lw_ready, []) =
     Returns (W_Requeue hello, lw_ready, [EvSend 2 hello (Some (ConnError ''broken pipe''))])
   \<and> mset (ch_buf (lw_c lw_ready)) + held (W_Requeue hello)
       + delivered [EvSend 2 hello (Some (ConnError ''broken pipe''))] =
     mset (ch_buf (lw_c lw_ready)) + held (W_Write hello) + delivered []"
proof -
  have step: "lbwriter_listen_step flaky True 2 (W_Write hello) (lw_ready, []) =
     Returns (W_Requeue hello, lw_ready, [EvSend 2 hello (Some (ConnError ''broken pipe''))])"
    by (simp add: msgWriter_write_def flaky_def Let_def)
  from lbwriter_listen_keeps_messages[OF step] step show ?thesis by blast
qed

text \<open>
  With the gate open and a live context, \<^verbatim>\<open>qreader.read\<close> takes the oldest message of
  the queue and returns the error that message carries: a failed read of a worker reaches
  the consumer as the error of one \<^verbatim>\<open>read\<close>.
\<close>

theorem qreader_read_takes_oldest:
  assumes "lock (q_sem q) = Returns s" and "\<not> ctx_Done ctx" and "ch_buf (q_c q) = m' # rest"
  shows "qreader_read first ctx q m =
           Returns (err m', m', q\<lparr>q_sem := s, q_c := (q_c q)\<lparr>ch_buf := rest\<rparr>\<rparr>)"
  using assms by (simp add: qreader_read_def select2_def can_recv_def chan_recv_def)

theorem qreader_read_takes_oldest_witness:
  "lock (q_sem (q_ready\<lparr>q_c := \<lparr>ch_buf = [eof, hello], ch_cap = 10, ch_closed = False\<rparr>\<rparr>)) =
     Returns open_gate
   \<and> \<not> ctx_Done Background
   \<and> qreader_read True Background
        (q_ready\<lparr>q_c := \<lparr>ch_buf = [eof, hello], ch_cap = 10, ch_closed = False\<rparr>\<rparr>) zero_msg =
      Returns (Some (ConnError ''EOF''), eof,
               q_ready\<lparr>q_c := \<lparr>ch_buf = [hello], ch_cap = 10, ch_closed = False\<rparr>\<rparr>)"
proof -
  let ?q = "q_ready\<lparr>q_c := \<lparr>ch_buf = [eof, hello], ch_cap = 10, ch_closed = False\<rparr>\<rparr>"
  have g: "lock (q_sem ?q) = Returns open_gate"
    by (simp add: q_ready_def open_gate_def lock_def chan_recv_def)
  have l: "\<not> ctx_Done Background" by (simp add: ctx_Done_def)
  have b: "ch_buf (q_c ?q) = eof # [hello]" by simp
  from qreader_read_takes_oldest[OF g l b, of True zero_msg]
  have "qreader_read True Background ?q zero_msg =
      Returns (Some (ConnError ''EOF''), eof,
               q_ready\<lparr>q_c := \<lparr>ch_buf = [hello], ch_cap = 10, ch_closed = False\<rparr>\<rparr>)"
    by (simp add: eof_def q_ready_def)
  with g l show ?thesis by blast
qed

end
